theory Spec2Isabelle
  imports Main "HOL-Library.Word" "HOL-Library.Sublist"
begin

unbundle bit_operations_syntax

section \<open>JavaScript strings\<close>

text \<open>
  A JavaScript string is a sequence of UTF-16 code units; indices, \<open>length\<close>, \<open>slice\<close>
  and match offsets count code units. A code unit is modelled by its number. The alarm
  clock glyph of the stamp is the single code unit U+23F0.
\<close>

type_synonym jsstring = "nat list"

definition js :: "string \<Rightarrow> jsstring" where
  "js s = map of_char s"

definition isSpace :: "nat \<Rightarrow> bool" where
  \<comment> \<open>the class \<open>\s\<close> and the characters removed by \<open>trim\<close>: WhiteSpace and LineTerminator\<close>
  "isSpace c \<longleftrightarrow>
     (9 \<le> c \<and> c \<le> 13) \<or> c = 32 \<or> c = 160 \<or> c = 5760 \<or> (8192 \<le> c \<and> c \<le> 8202) \<or>
     c = 8232 \<or> c = 8233 \<or> c = 8239 \<or> c = 8287 \<or> c = 12288 \<or> c = 65279"

definition isDigit :: "nat \<Rightarrow> bool" where
  "isDigit c \<longleftrightarrow> 48 \<le> c \<and> c \<le> 57"

definition isWordChar :: "nat \<Rightarrow> bool" where
  \<comment> \<open>the class \<open>\w\<close> (no unicode flag): letters, digits and the underscore\<close>
  "isWordChar c \<longleftrightarrow> (65 \<le> c \<and> c \<le> 90) \<or> (97 \<le> c \<and> c \<le> 122) \<or> isDigit c \<or> c = 95"

definition lowerUnit :: "nat \<Rightarrow> nat" where
  "lowerUnit c = (if 65 \<le> c \<and> c \<le> 90 then c + 32 else c)"

definition toLowerCase :: "jsstring \<Rightarrow> jsstring" where
  \<comment> \<open>\<open>String.prototype.toLowerCase\<close> on the ASCII letters; other code units are kept\<close>
  "toLowerCase s = map lowerUnit s"

definition trim :: "jsstring \<Rightarrow> jsstring" where
  "trim s = rev (dropWhile isSpace (rev (dropWhile isSpace s)))"

definition startsWith :: "jsstring \<Rightarrow> jsstring \<Rightarrow> bool" where
  "startsWith s p \<longleftrightarrow> take (length p) s = p"

definition sliceStr :: "jsstring \<Rightarrow> nat \<Rightarrow> nat \<Rightarrow> jsstring" where
  \<comment> \<open>\<open>s.slice(a, b)\<close> for non-negative \<open>a\<close> and \<open>b\<close>\<close>
  "sliceStr s a b = take (b - a) (drop a s)"


definition decVal :: "jsstring \<Rightarrow> nat" where
  \<comment> \<open>the number written by a string of decimal digits\<close>
  "decVal ds = foldl (\<lambda>a c. 10 * a + (c - 48)) 0 ds"

definition parseInt10 :: "jsstring \<Rightarrow> int option" where
  \<comment> \<open>\<open>parseInt(s, 10)\<close>: leading white space, a sign, the longest run of digits;
      \<open>None\<close> is NaN\<close>
  "parseInt10 s =
     (let t = dropWhile isSpace s;
          neg = (case t of [] \<Rightarrow> False | c # _ \<Rightarrow> c = 45);
          u = (case t of [] \<Rightarrow> [] | c # r \<Rightarrow> if c = 45 \<or> c = 43 then r else t);
          ds = takeWhile isDigit u
      in if ds = [] then None
         else Some (if neg then - int (decVal ds) else int (decVal ds)))"

section \<open>Sender gating\<close>

record settings =
  dismissStatusChars :: jsstring
  senderHostnames :: jsstring
  senderIPsCidrs :: jsstring


datatype rule =
    Cidr nat "32 word" int
  | Exact nat jsstring
  | Prefix jsstring















section \<open>Instants and recurrences\<close>

text \<open>
  A moment is modelled by its instant, the number of milliseconds since the epoch
  (\<open>valueOf\<close>), in a time zone with a fixed offset from UTC: adding a day is adding
  86400000 ms. \<open>isAfter\<close> is \<open>>\<close> on instants. The units are the four names that
  \<open>normalizeUnit\<close> returns; any other unit name is outside the model and adds nothing.
\<close>

record recurrence =
  every :: int
  unit :: jsstring

definition unitMillis :: "jsstring \<Rightarrow> int" where
  "unitMillis u =
     (if u = js ''minutes'' then 60000
      else if u = js ''hours'' then 3600000
      else if u = js ''days'' then 86400000
      else if u = js ''weeks'' then 604800000
      else 0)"

definition momentAdd :: "int \<Rightarrow> int \<Rightarrow> jsstring \<Rightarrow> int" where
  \<comment> \<open>\<open>m.add(n, unit)\<close>\<close>
  "momentAdd t n u = t + n * unitMillis u"




partial_function (option) advanceLoop :: "recurrence \<Rightarrow> int \<Rightarrow> int \<Rightarrow> int option" where
  \<comment> \<open>\<open>while (!next.isAfter(now)) next.add(recur.every, recur.unit)\<close>; \<open>None\<close> when the
      loop does not end\<close>
  "advanceLoop recur next now =
     (if \<not> next > now then advanceLoop recur (momentAdd next (every recur) (unit recur)) now
      else Some next)"

section \<open>The timer registry\<close>

record timer =
  \<comment> \<open>what the callback of \<open>scheduleOneReminder\<close> captures\<close>
  filePath :: jsstring
  lineIndex :: nat
  whenAt :: int
  prio :: nat
  ctxt :: jsstring
  offset :: nat
  recur :: "recurrence option"

datatype event =
    Logged string
  | Noticed string
  | Posted jsstring nat

record recentInsertInfo =
  riTime :: int
  riFilePath :: jsstring
  riLineIndex :: nat

record plugin =
  timerHandles :: "jsstring \<rightharpoonup> nat"
  fileTimers :: "jsstring \<rightharpoonup> jsstring set"
  isSender :: bool
  config :: settings
  recentInsert :: "recentInsertInfo option"
  pending :: "nat \<rightharpoonup> timer"
  nextHandle :: nat
  events :: "event list"

text \<open>
  \<open>pending\<close> is the platform's table of armed one-shot timers (\<open>window.setTimeout\<close>,
  \<open>window.clearTimeout\<close>); a handle is a fresh number taken from \<open>nextHandle\<close>.
  \<open>events\<close> records console output, notices and calls of \<open>sendNtfy\<close> in order.
\<close>

definition MAX_TIMEOUT_MS :: int where
  "MAX_TIMEOUT_MS = 0x7fffffff"

fun showNat :: "nat \<Rightarrow> jsstring" where
  "showNat n = (if n < 10 then [48 + n] else showNat (n div 10) @ [48 + n mod 10])"

declare showNat.simps [simp del]

definition showInt :: "int \<Rightarrow> jsstring" where
  "showInt i = (if i < 0 then 45 # showNat (nat (- i)) else showNat (nat i))"

definition unix :: "int \<Rightarrow> int" where
  \<comment> \<open>\<open>when.unix()\<close>: whole seconds\<close>
  "unix t = t div 1000"

definition timerId :: "jsstring \<Rightarrow> nat \<Rightarrow> int \<Rightarrow> nat \<Rightarrow> jsstring" where
  "timerId fp li w off = fp @ [35] @ showNat li @ [35] @ showInt (unix w) @ [35] @ showNat off"

definition logEvent :: "string \<Rightarrow> plugin \<Rightarrow> plugin" where
  "logEvent msg st = st\<lparr>events := events st @ [Logged msg]\<rparr>"

definition notice :: "string \<Rightarrow> plugin \<Rightarrow> plugin" where
  "notice msg st = st\<lparr>events := events st @ [Noticed msg]\<rparr>"

definition sendNtfy :: "jsstring \<Rightarrow> nat \<Rightarrow> plugin \<Rightarrow> plugin" where
  \<comment> \<open>the request is issued; its outcome belongs to the environment\<close>
  "sendNtfy text priority st = st\<lparr>events := events st @ [Posted text priority]\<rparr>"

definition noteScheduled :: "jsstring \<Rightarrow> nat \<Rightarrow> int \<Rightarrow> plugin \<Rightarrow> plugin" where
  \<comment> \<open>the end of \<open>scheduleOneReminder\<close>: the toast for a freshly inserted stamp\<close>
  "noteScheduled fp li now st =
     (case recentInsert st of
        None \<Rightarrow> st
      | Some ri \<Rightarrow>
          if riFilePath ri = fp \<and> riLineIndex ri = li \<and> now - riTime ri < 30000
          then (notice ''Reminder set'' st)\<lparr>recentInsert := None\<rparr>
          else st)"

definition scheduleOneReminder :: "plugin \<Rightarrow> timer \<Rightarrow> int \<Rightarrow> plugin" where
  "scheduleOneReminder st tm now =
     (let id = timerId (filePath tm) (lineIndex tm) (whenAt tm) (offset tm) in
      if timerHandles st id \<noteq> None then st
      else
        (let ms = whenAt tm - now in
         if ms \<le> 0 then st
         else if ms > MAX_TIMEOUT_MS then logEvent ''skip scheduling far future'' st
         else
           (let st1 = logEvent ''SCHEDULE'' st;
                handle = nextHandle st1;
                st2 = st1\<lparr>pending := (pending st1)(handle \<mapsto> tm),
                          nextHandle := Suc handle\<rparr>;
                st3 = st2\<lparr>timerHandles := (timerHandles st2)(id \<mapsto> handle)\<rparr>;
                st4 = (if fileTimers st3 (filePath tm) = None
                       then st3\<lparr>fileTimers := (fileTimers st3)(filePath tm \<mapsto> {})\<rparr>
                       else st3);
                st5 = st4\<lparr>fileTimers :=
                          (fileTimers st4)(filePath tm \<mapsto>
                             insert id (case fileTimers st4 (filePath tm) of
                                          None \<Rightarrow> {} | Some ids \<Rightarrow> ids))\<rparr>
            in noteScheduled (filePath tm) (lineIndex tm) now st5)))"

definition handlesOf :: "plugin \<Rightarrow> jsstring set \<Rightarrow> nat set" where
  \<comment> \<open>the handles cleared while iterating over \<open>ids\<close>: \<open>if (h) window.clearTimeout(h)\<close>\<close>
  "handlesOf st ids = {h. h \<noteq> 0 \<and> (\<exists>id \<in> ids. timerHandles st id = Some h)}"

definition clearTimersForFile :: "plugin \<Rightarrow> jsstring \<Rightarrow> plugin" where
  "clearTimersForFile st fp =
     (case fileTimers st fp of
        None \<Rightarrow> st
      | Some ids \<Rightarrow>
          logEvent ''cleared timers for file''
            (st\<lparr>pending := (\<lambda>h. if h \<in> handlesOf st ids then None else pending st h),
                timerHandles := (\<lambda>id. if id \<in> ids then None else timerHandles st id),
                fileTimers := (fileTimers st)(fp := None)\<rparr>))"

definition clearTimersForLine :: "plugin \<Rightarrow> jsstring \<Rightarrow> nat \<Rightarrow> plugin" where
  "clearTimersForLine st fp li =
     (case fileTimers st fp of
        None \<Rightarrow> st
      | Some ids \<Rightarrow>
          (let pre = fp @ [35] @ showNat li @ [35];
               hit = {id \<in> ids. startsWith id pre};
               rest = ids - hit
           in st\<lparr>pending := (\<lambda>h. if h \<in> handlesOf st hit then None else pending st h),
                 timerHandles := (\<lambda>id. if id \<in> hit then None else timerHandles st id),
                 fileTimers := (if rest = {} then (fileTimers st)(fp := None)
                                else (fileTimers st)(fp \<mapsto> rest))\<rparr>))"

definition clearAllTimers :: "plugin \<Rightarrow> plugin" where
  "clearAllTimers st =
     logEvent ''cleared ALL timers''
       (st\<lparr>pending := (\<lambda>h. if h \<in> ran (timerHandles st) then None else pending st h),
           timerHandles := Map.empty,
           fileTimers := Map.empty\<rparr>)"

definition forgetFired :: "plugin \<Rightarrow> timer \<Rightarrow> plugin" where
  \<comment> \<open>the first part of the callback's \<open>finally\<close> block\<close>
  "forgetFired st tm =
     (let id = timerId (filePath tm) (lineIndex tm) (whenAt tm) (offset tm);
          st1 = st\<lparr>timerHandles := (timerHandles st)(id := None)\<rparr>
      in case fileTimers st1 (filePath tm) of
           None \<Rightarrow> st1
         | Some ids \<Rightarrow>
             if ids - {id} = {} then st1\<lparr>fileTimers := (fileTimers st1)(filePath tm := None)\<rparr>
             else st1\<lparr>fileTimers := (fileTimers st1)(filePath tm \<mapsto> ids - {id})\<rparr>)"

definition fire :: "plugin \<Rightarrow> nat \<Rightarrow> int \<Rightarrow> plugin option" where
  \<comment> \<open>the platform runs the callback of the armed timer \<open>h\<close> at the instant \<open>now\<close>;
      \<open>None\<close> when the callback does not return\<close>
  "fire st h now =
     (case pending st h of
        None \<Rightarrow> Some st
      | Some tm \<Rightarrow>
          (let st0 = st\<lparr>pending := (pending st)(h := None)\<rparr>;
               st1 = (if \<not> isSender st0 then logEvent ''SKIP fire (role became SILENT)'' st0
                      else sendNtfy (ctxt tm) (prio tm) (logEvent ''FIRING'' st0));
               st2 = forgetFired st1 tm
           in case recur tm of
                None \<Rightarrow> Some st2
              | Some r \<Rightarrow>
                  if isSender st2 then
                    (case advanceLoop r (momentAdd (whenAt tm) (every r) (unit r)) now of
                       None \<Rightarrow> None
                     | Some next \<Rightarrow> Some (scheduleOneReminder st2 (tm\<lparr>whenAt := next\<rparr>) now))
                  else Some st2))"

section \<open>The stamp parser\<close>

record datetime =
  \<comment> \<open>the fields a moment is built from by \<open>moment(text, "YYYY-MM-DD HH:mm", true)\<close>\<close>
  year :: int
  month :: int
  day :: int
  hour :: int
  minute :: int

definition daysInMonth :: "int \<Rightarrow> int \<Rightarrow> int" where
  "daysInMonth y m =
     (if m = 2 then (if (y mod 4 = 0 \<and> y mod 100 \<noteq> 0) \<or> y mod 400 = 0 then 29 else 28)
      else if m = 4 \<or> m = 6 \<or> m = 9 \<or> m = 11 then 30
      else 31)"

definition isValid :: "datetime \<Rightarrow> bool" where
  \<comment> \<open>strict parsing succeeded: the date exists, the hour and the minute are in range\<close>
  "isValid dt \<longleftrightarrow>
     1 \<le> month dt \<and> month dt \<le> 12 \<and>
     1 \<le> day dt \<and> day dt \<le> daysInMonth (year dt) (month dt) \<and>
     0 \<le> hour dt \<and> hour dt \<le> 23 \<and> 0 \<le> minute dt \<and> minute dt \<le> 59"



record stampMatch =
  \<comment> \<open>one match of \<open>tsRe\<close>: the length of \<open>m[0]\<close> and the groups\<close>
  mlen :: nat
  dateStr :: jsstring
  hourStr :: jsstring
  minStr :: "jsstring option"
  apStr :: "jsstring option"

definition wordBoundary :: "bool \<Rightarrow> jsstring \<Rightarrow> bool" where
  \<comment> \<open>\<open>\b\<close> between a previous character (word character or not) and the rest\<close>
  "wordBoundary prevWord rest \<longleftrightarrow>
     prevWord \<noteq> (case rest of [] \<Rightarrow> False | c # _ \<Rightarrow> isWordChar c)"

definition isAmPm :: "jsstring \<Rightarrow> bool" where
  \<comment> \<open>\<open>(am|pm)\<close> at the head, ignoring case\<close>
  "isAmPm u \<longleftrightarrow>
     (case u of
        a # b # _ \<Rightarrow> (a = 97 \<or> a = 65 \<or> a = 112 \<or> a = 80) \<and> (b = 109 \<or> b = 77)
      | _ \<Rightarrow> False)"

definition tailAt :: "nat \<Rightarrow> jsstring \<Rightarrow> (nat \<times> jsstring option) option" where
  \<comment> \<open>\<open>(am|pm)?\b\<close> after \<open>\s*\<close> has taken \<open>k\<close> characters of \<open>t\<close>, which follows a
      digit: the characters consumed and the fourth group\<close>
  "tailAt k t =
     (let u = drop k t in
      if isAmPm u \<and> wordBoundary True (drop 2 u) then Some (k + 2, Some (take 2 u))
      else if wordBoundary (k = 0) u then Some (k, None)
      else None)"

fun tailTry :: "nat \<Rightarrow> jsstring \<Rightarrow> (nat \<times> jsstring option) option" where
  \<comment> \<open>\<open>\s*(am|pm)?\b\<close>: the greedy \<open>\s*\<close> gives characters back one at a time\<close>
  "tailTry 0 t = tailAt 0 t"
| "tailTry (Suc k) t = (case tailAt (Suc k) t of Some r \<Rightarrow> Some r | None \<Rightarrow> tailTry k t)"

definition matchTail :: "jsstring \<Rightarrow> (nat \<times> jsstring option) option" where
  "matchTail t = tailTry (length (takeWhile isSpace t)) t"

definition matchMinutes :: "jsstring \<Rightarrow> (nat \<times> jsstring option \<times> jsstring option) option" where
  \<comment> \<open>\<open>(?::([0-5]\d))?\s*(am|pm)?\b\<close> after the hour: first with the minutes, then
      without\<close>
  "matchMinutes t =
     (let without = (case matchTail t of
                       None \<Rightarrow> None
                     | Some (n, ap) \<Rightarrow> Some (n, None, ap))
      in case t of
           c # a # b # t' \<Rightarrow>
             if c = 58 \<and> 48 \<le> a \<and> a \<le> 53 \<and> isDigit b then
               (case matchTail t' of
                  Some (n, ap) \<Rightarrow> Some (3 + n, Some [a, b], ap)
                | None \<Rightarrow> without)
             else without
         | _ \<Rightarrow> without)"

definition matchHour ::
  "jsstring \<Rightarrow> (nat \<times> jsstring \<times> jsstring option \<times> jsstring option) option" where
  \<comment> \<open>\<open>(\d{1,2})\<close> and what follows: first two digits, then one\<close>
  "matchHour t =
     (let one = (case t of
                   a # t' \<Rightarrow>
                     if isDigit a then
                       (case matchMinutes t' of
                          None \<Rightarrow> None
                        | Some (n, mi, ap) \<Rightarrow> Some (1 + n, [a], mi, ap))
                     else None
                 | _ \<Rightarrow> None)
      in case t of
           a # b # t' \<Rightarrow>
             if isDigit a \<and> isDigit b then
               (case matchMinutes t' of
                  Some (n, mi, ap) \<Rightarrow> Some (2 + n, [a, b], mi, ap)
                | None \<Rightarrow> one)
             else one
         | _ \<Rightarrow> one)"

definition isDateText :: "jsstring \<Rightarrow> bool" where
  \<comment> \<open>\<open>\d{4}-\d{2}-\d{2}\<close> on a string of ten characters\<close>
  "isDateText d \<longleftrightarrow>
     length d = 10 \<and> list_all isDigit (take 4 d) \<and> d ! 4 = 45 \<and>
     list_all isDigit (take 2 (drop 5 d)) \<and> d ! 7 = 45 \<and> list_all isDigit (drop 8 d)"

definition matchAfterClock :: "jsstring \<Rightarrow> stampMatch option" where
  \<comment> \<open>the rest of \<open>tsRe\<close> after the clock glyph; \<open>mlen\<close> counts the glyph\<close>
  "matchAfterClock t =
     (let sp0 = takeWhile isSpace t;
          t1 = dropWhile isSpace t;
          d = take 10 t1;
          t2 = drop 10 t1;
          sp1 = takeWhile isSpace t2;
          t3 = dropWhile isSpace t2
      in if isDateText d \<and> sp1 \<noteq> [] then
           (case matchHour t3 of
              None \<Rightarrow> None
            | Some (n, h, mi, ap) \<Rightarrow>
                Some \<lparr>mlen = 1 + length sp0 + 10 + length sp1 + n, dateStr = d,
                      hourStr = h, minStr = mi, apStr = ap\<rparr>)
         else None)"

fun matchAllFrom :: "nat \<Rightarrow> jsstring \<Rightarrow> (nat \<times> stampMatch) list" where
  \<comment> \<open>\<open>line.matchAll(tsRe)\<close> from index \<open>i\<close>, the argument being the line from \<open>i\<close> on:
      the index and the groups of every match, left to right\<close>
  "matchAllFrom i [] = []"
| "matchAllFrom i (c # cs) =
     (if c = 9200 then
        (case matchAfterClock cs of
           None \<Rightarrow> matchAllFrom (Suc i) cs
         | Some m \<Rightarrow> (i, m) # matchAllFrom (i + mlen m) (drop (mlen m - 1) cs))
      else matchAllFrom (Suc i) cs)"

definition unitAlternatives :: "jsstring list" where
  \<comment> \<open>the alternatives of the unit group in the order the matcher tries them\<close>
  "unitAlternatives =
     map js [''minutes'', ''minute'', ''minute'', ''min'', ''m'',
             ''hours'', ''hour'', ''hour'', ''hr'', ''h'',
             ''days'', ''day'', ''day'', ''d'',
             ''weeks'', ''week'', ''week'', ''w'']"

record everyMatch =
  \<comment> \<open>a match of the recurrence pattern: the length of \<open>rm[0]\<close> and the groups\<close>
  rlen :: nat
  countStr :: jsstring
  unitStr :: jsstring

definition matchEvery :: "jsstring \<Rightarrow> everyMatch option" where
  \<comment> \<open>\<open>/^\s*every\s+(\d+)\s*(minutes?|...|w)\b/i\<close>\<close>
  "matchEvery tailText =
     (let t1 = dropWhile isSpace tailText;
          t2 = drop 5 t1;
          t3 = dropWhile isSpace t2;
          ds = takeWhile isDigit t3;
          t4 = dropWhile isDigit t3;
          t5 = dropWhile isSpace t4
      in if map lowerUnit (take 5 t1) = js ''every'' \<and> takeWhile isSpace t2 \<noteq> [] \<and> ds \<noteq> [] then
           (case find (\<lambda>tok. map lowerUnit (take (length tok) t5) = tok \<and>
                              wordBoundary True (drop (length tok) t5)) unitAlternatives of
              None \<Rightarrow> None
            | Some tok \<Rightarrow>
                Some \<lparr>rlen = length tailText - length t5 + length tok, countStr = ds,
                      unitStr = take (length tok) t5\<rparr>)
         else None)"

definition normalizeUnit :: "jsstring \<Rightarrow> jsstring option" where
  "normalizeUnit tok =
     (if tok \<in> set (map js [''m'', ''min'', ''mins'', ''minute'', ''minutes'']) then Some (js ''minutes'')
      else if tok \<in> set (map js [''h'', ''hour'', ''hours'', ''hr'', ''hrs'']) then Some (js ''hours'')
      else if tok \<in> set (map js [''d'', ''day'', ''days'']) then Some (js ''days'')
      else if tok \<in> set (map js [''w'', ''week'', ''weeks'']) then Some (js ''weeks'')
      else None)"

record occurrence =
  occWhen :: datetime
  occContext :: jsstring
  occRaw :: jsstring
  occOffset :: nat
  occRecur :: "recurrence option"

definition resolveHour :: "int \<Rightarrow> jsstring option \<Rightarrow> int" where
  \<comment> \<open>\<open>if (ap) { if (ap === "pm" && hh < 12) hh += 12; if (ap === "am" && hh === 12) hh = 0; }\<close>\<close>
  "resolveHour hh ap =
     (case ap of
        None \<Rightarrow> hh
      | Some a \<Rightarrow>
          (let hh1 = (if a = js ''pm'' \<and> hh < 12 then hh + 12 else hh)
           in if a = js ''am'' \<and> hh1 = 12 then 0 else hh1))"

definition momentOf :: "jsstring \<Rightarrow> int \<Rightarrow> int \<Rightarrow> datetime" where
  \<comment> \<open>the moment parsed from the date text and the two-digit hour and minute\<close>
  "momentOf d hh mm =
     \<lparr>year = int (decVal (take 4 d)), month = int (decVal (take 2 (drop 5 d))),
      day = int (decVal (drop 8 d)), hour = hh, minute = mm\<rparr>"

definition parseRecur :: "jsstring \<Rightarrow> (recurrence \<times> nat) option" where
  \<comment> \<open>the recurrence read from the text after a stamp, and the length it takes\<close>
  "parseRecur tailText =
     (case matchEvery tailText of
        None \<Rightarrow> None
      | Some rm \<Rightarrow>
          (let ev = max 1 (case parseInt10 (countStr rm) of None \<Rightarrow> 0 | Some n \<Rightarrow> n);
               unitTok = toLowerCase (unitStr rm)
           in case normalizeUnit unitTok of
                None \<Rightarrow> None
              | Some u \<Rightarrow> if ev > 0 then Some (\<lparr>every = ev, unit = u\<rparr>, rlen rm) else None))"

definition contextOf :: "jsstring \<Rightarrow> nat \<Rightarrow> nat \<Rightarrow> jsstring" where
  "contextOf line start end2 =
     (let beforeText = trim (sliceStr line 0 start);
          afterText = trim (drop end2 line)
      in trim (beforeText @ (if beforeText \<noteq> [] \<and> afterText \<noteq> [] then [32] else []) @ afterText))"

definition parseOne :: "jsstring \<Rightarrow> nat \<Rightarrow> stampMatch \<Rightarrow> nat \<Rightarrow> occurrence option" where
  \<comment> \<open>the body of the loop of \<open>parseClockEmojiAll\<close> for the match at \<open>start\<close>;
      \<open>None\<close> is \<open>continue\<close>\<close>
  "parseOne line start m nextStart =
     (let raw = sliceStr line start (start + mlen m);
          end = start + length raw
      in case (parseInt10 (hourStr m),
               (case minStr m of None \<Rightarrow> Some 0 | Some ms \<Rightarrow> parseInt10 ms)) of
           (Some hh0, Some mm) \<Rightarrow>
             (let ap = map_option toLowerCase (apStr m);
                  hh = resolveHour hh0 ap
              in if hh > 23 \<or> mm > 59 then None
                 else
                   (let whn = momentOf (dateStr m) hh mm in
                    if \<not> isValid whn then None
                    else
                      (let tailText = sliceStr line end nextStart;
                           rc = parseRecur tailText;
                           end2 = (case rc of None \<Rightarrow> end | Some (r, n) \<Rightarrow> end + n)
                       in Some \<lparr>occWhen = whn, occContext = contextOf line start end2,
                                occRaw = raw, occOffset = start,
                                occRecur = map_option fst rc\<rparr>)))
         | _ \<Rightarrow> None)"

fun parseMatches :: "jsstring \<Rightarrow> (nat \<times> stampMatch) list \<Rightarrow> occurrence list" where
  "parseMatches line [] = []"
| "parseMatches line ((start, m) # rest) =
     (let nextStart = (case rest of [] \<Rightarrow> length line | (s', m') # rest' \<Rightarrow> s')
      in (case parseOne line start m nextStart of None \<Rightarrow> [] | Some oc \<Rightarrow> [oc])
         @ parseMatches line rest)"

definition parseClockEmojiAll :: "jsstring \<Rightarrow> occurrence list" where
  "parseClockEmojiAll line = parseMatches line (matchAllFrom 0 line)"

section \<open>The scheduler\<close>










section \<open>Runs of the registry\<close>

definition onload :: "settings \<Rightarrow> bool \<Rightarrow> plugin" where
  \<comment> \<open>the registry as \<open>onload\<close> creates it\<close>
  "onload cfg sender =
     \<lparr>timerHandles = Map.empty, fileTimers = Map.empty, isSender = sender, config = cfg,
      recentInsert = None, pending = Map.empty, nextHandle = 1, events = []\<rparr>"

datatype op =
    Schedule timer int
  | CancelForLine jsstring nat
  | CancelForDocument jsstring
  | CancelAll
  | Fire nat int

fun applyOp :: "plugin \<Rightarrow> op \<Rightarrow> plugin option" where
  "applyOp st (Schedule tm now) = Some (scheduleOneReminder st tm now)"
| "applyOp st (CancelForLine fp li) = Some (clearTimersForLine st fp li)"
| "applyOp st (CancelForDocument fp) = Some (clearTimersForFile st fp)"
| "applyOp st CancelAll = Some (clearAllTimers st)"
| "applyOp st (Fire h now) = fire st h now"

fun runOps :: "plugin \<Rightarrow> op list \<Rightarrow> plugin option" where
  "runOps st [] = Some st"
| "runOps st (x # xs) = (case applyOp st x of None \<Rightarrow> None | Some st' \<Rightarrow> runOps st' xs)"

definition consistent :: "plugin \<Rightarrow> bool" where
  \<comment> \<open>the two indices hold the same ids\<close>
  "consistent st \<longleftrightarrow>
     (\<forall>id. id \<in> dom (timerHandles st) \<longleftrightarrow>
           (\<exists>fp ids. fileTimers st fp = Some ids \<and> id \<in> ids))"

definition owned :: "plugin \<Rightarrow> bool" where
  \<comment> \<open>every id of a document's set was built from that document's path\<close>
  "owned st \<longleftrightarrow>
     (\<forall>fp ids id. fileTimers st fp = Some ids \<and> id \<in> ids \<longrightarrow>
        (\<exists>li w off. id = timerId fp li w off))"

text \<open>Notions for reasoning about the secondary index.\<close>

definition indexed :: "(jsstring \<rightharpoonup> jsstring set) \<Rightarrow> jsstring \<Rightarrow> bool" where
  "indexed m x \<longleftrightarrow> (\<exists>fp ids. m fp = Some ids \<and> x \<in> ids)"

definition mine :: "(jsstring \<rightharpoonup> jsstring set) \<Rightarrow> jsstring \<Rightarrow> jsstring set" where
  "mine m p = (case m p of None \<Rightarrow> {} | Some ids \<Rightarrow> ids)"

definition others :: "(jsstring \<rightharpoonup> jsstring set) \<Rightarrow> jsstring \<Rightarrow> jsstring \<Rightarrow> bool" where
  "others m p x \<longleftrightarrow> (\<exists>fp ids. fp \<noteq> p \<and> m fp = Some ids \<and> x \<in> ids)"

definition lineHit :: "jsstring \<Rightarrow> nat \<Rightarrow> jsstring set \<Rightarrow> jsstring set" where
  \<comment> \<open>the ids of a document that start with the prefix of a line\<close>
  "lineHit fp li ids = {id \<in> ids. startsWith id (fp @ [35] @ showNat li @ [35])}"

definition inv :: "plugin \<Rightarrow> bool" where
  \<comment> \<open>the invariant of the registry\<close>
  "inv st \<longleftrightarrow> consistent st \<and> owned st"


subsection \<open>The sender-authorization predicate\<close>











section \<open>Properties of the registry\<close>


lemma showNat_no_hash: "35 \<notin> set (showNat n)"
proof (induction n rule: showNat.induct)
  case (1 n)
  show ?case
  proof (cases "n < 10")
    case True
    then show ?thesis by (subst showNat.simps) simp
  next
    case False
    with 1 show ?thesis by (subst showNat.simps) simp
  qed
qed

lemma showInt_no_hash: "35 \<notin> set (showInt i)"
  by (simp add: showInt_def showNat_no_hash)

lemma drop_to_last_hash:
  "(35::nat) \<notin> set a \<Longrightarrow> dropWhile (\<lambda>c. c \<noteq> 35) (rev (x @ 35 # a)) = 35 # rev x"
proof -
  assume a: "35 \<notin> set a"
  have "dropWhile (\<lambda>c. c \<noteq> 35) (rev a @ 35 # rev x) = dropWhile (\<lambda>c. c \<noteq> 35) (35 # rev x)"
    by (rule dropWhile_append2) (use a in auto)
  then show ?thesis by simp
qed

lemma split_last_hash:
  assumes "(35::nat) \<notin> set a" "35 \<notin> set b" "x @ 35 # a = y @ 35 # b"
  shows "x = y"
proof -
  have "dropWhile (\<lambda>c. c \<noteq> 35) (rev (x @ 35 # a)) = dropWhile (\<lambda>c. c \<noteq> 35) (rev (y @ 35 # b))"
    using assms(3) by simp
  then have "35 # rev x = 35 # rev y"
    by (simp only: drop_to_last_hash [OF assms(1)] drop_to_last_hash [OF assms(2)])
  then show ?thesis by simp
qed

lemma timerId_path_inj:
  assumes "timerId fp li w off = timerId fp' li' w' off'"
  shows "fp = fp'"
proof -
  have "((fp @ 35 # showNat li) @ 35 # showInt (unix w)) @ 35 # showNat off =
        ((fp' @ 35 # showNat li') @ 35 # showInt (unix w')) @ 35 # showNat off'"
    using assms by (simp add: timerId_def)
  then have "(fp @ 35 # showNat li) @ 35 # showInt (unix w) =
             (fp' @ 35 # showNat li') @ 35 # showInt (unix w')"
    by (rule split_last_hash [OF showNat_no_hash showNat_no_hash])
  then have "fp @ 35 # showNat li = fp' @ 35 # showNat li'"
    by (rule split_last_hash [OF showInt_no_hash showInt_no_hash])
  then show ?thesis
    by (rule split_last_hash [OF showNat_no_hash showNat_no_hash])
qed

lemma logEvent_fields:
  "timerHandles (logEvent m st) = timerHandles st"
  "fileTimers (logEvent m st) = fileTimers st"
  "pending (logEvent m st) = pending st"
  "nextHandle (logEvent m st) = nextHandle st"
  "isSender (logEvent m st) = isSender st"
  "config (logEvent m st) = config st"
  "recentInsert (logEvent m st) = recentInsert st"
  by (simp_all add: logEvent_def)

lemma sendNtfy_fields:
  "timerHandles (sendNtfy c p st) = timerHandles st"
  "fileTimers (sendNtfy c p st) = fileTimers st"
  "pending (sendNtfy c p st) = pending st"
  "nextHandle (sendNtfy c p st) = nextHandle st"
  "isSender (sendNtfy c p st) = isSender st"
  "config (sendNtfy c p st) = config st"
  "recentInsert (sendNtfy c p st) = recentInsert st"
  by (simp_all add: sendNtfy_def)

lemma noteScheduled_fields:
  "timerHandles (noteScheduled fp li now st) = timerHandles st"
  "fileTimers (noteScheduled fp li now st) = fileTimers st"
  "pending (noteScheduled fp li now st) = pending st"
  "nextHandle (noteScheduled fp li now st) = nextHandle st"
  "isSender (noteScheduled fp li now st) = isSender st"
  "config (noteScheduled fp li now st) = config st"
  by (simp_all add: noteScheduled_def notice_def split: option.splits)

lemma scheduleOneReminder_present:
  "timerHandles st (timerId (filePath tm) (lineIndex tm) (whenAt tm) (offset tm)) \<noteq> None
   \<Longrightarrow> scheduleOneReminder st tm now = st"
  by (simp add: scheduleOneReminder_def)

lemma scheduleOneReminder_past:
  "whenAt tm - now \<le> 0 \<Longrightarrow> scheduleOneReminder st tm now = st"
  by (simp add: scheduleOneReminder_def Let_def)

lemma scheduleOneReminder_far:
  "timerHandles st (timerId (filePath tm) (lineIndex tm) (whenAt tm) (offset tm)) = None \<Longrightarrow>
   whenAt tm - now > MAX_TIMEOUT_MS \<Longrightarrow>
   scheduleOneReminder st tm now = logEvent ''skip scheduling far future'' st"
  by (auto simp add: scheduleOneReminder_def Let_def MAX_TIMEOUT_MS_def)

lemma scheduleOneReminder_accept:
  assumes "timerHandles st (timerId (filePath tm) (lineIndex tm) (whenAt tm) (offset tm)) = None"
    and "0 < whenAt tm - now" and "whenAt tm - now \<le> MAX_TIMEOUT_MS"
  shows "timerHandles (scheduleOneReminder st tm now) =
           (timerHandles st)(timerId (filePath tm) (lineIndex tm) (whenAt tm) (offset tm)
              \<mapsto> nextHandle st)"
    and "fileTimers (scheduleOneReminder st tm now) =
           (fileTimers st)(filePath tm \<mapsto>
              insert (timerId (filePath tm) (lineIndex tm) (whenAt tm) (offset tm))
                (case fileTimers st (filePath tm) of None \<Rightarrow> {} | Some ids \<Rightarrow> ids))"
    and "pending (scheduleOneReminder st tm now) = (pending st)(nextHandle st \<mapsto> tm)"
    and "nextHandle (scheduleOneReminder st tm now) = Suc (nextHandle st)"
    and "isSender (scheduleOneReminder st tm now) = isSender st"
  using assms
  by (simp_all add: scheduleOneReminder_def Let_def noteScheduled_fields logEvent_fields)

lemma scheduleOneReminder_cases:
  obtains (same) "scheduleOneReminder st tm now = st"
  | (far) "scheduleOneReminder st tm now = logEvent ''skip scheduling far future'' st"
  | (accept) "timerHandles st (timerId (filePath tm) (lineIndex tm) (whenAt tm) (offset tm)) = None"
      "0 < whenAt tm - now" "whenAt tm - now \<le> MAX_TIMEOUT_MS"
proof (cases "timerHandles st (timerId (filePath tm) (lineIndex tm) (whenAt tm) (offset tm)) = None")
  case False
  then show ?thesis using same scheduleOneReminder_present by blast
next
  case absent: True
  show ?thesis
  proof (cases "whenAt tm - now \<le> 0")
    case True
    then show ?thesis using same scheduleOneReminder_past by blast
  next
    case pos: False
    show ?thesis
    proof (cases "whenAt tm - now > MAX_TIMEOUT_MS")
      case True
      then show ?thesis using far scheduleOneReminder_far absent by blast
    next
      case False
      then show ?thesis using accept absent pos by simp
    qed
  qed
qed

lemma indexed_split: "indexed m x \<longleftrightarrow> x \<in> mine m p \<or> others m p x"
  unfolding indexed_def mine_def others_def
  by (cases "m p") (auto, metis option.distinct(1), metis option.inject)

lemma mine_upd: "mine (m(p \<mapsto> S)) p = S" "mine (m(p := None)) p = {}"
  by (simp_all add: mine_def)

lemma others_upd: "others (m(p := v)) p x = others m p x"
  unfolding others_def by auto

lemma consistent_alt: "consistent st \<longleftrightarrow> (\<forall>x. x \<in> dom (timerHandles st) \<longleftrightarrow> indexed (fileTimers st) x)"
  by (simp add: consistent_def indexed_def)

lemma owned_mine: "owned st \<Longrightarrow> x \<in> mine (fileTimers st) p \<Longrightarrow> \<exists>li w off. x = timerId p li w off"
  unfolding owned_def mine_def by (auto split: option.splits)

lemma owned_others: "owned st \<Longrightarrow> others (fileTimers st) p x \<Longrightarrow> x \<noteq> timerId p li w off"
  unfolding owned_def others_def using timerId_path_inj by blast

lemma owned_disjoint: "owned st \<Longrightarrow> others (fileTimers st) p x \<Longrightarrow> x \<notin> mine (fileTimers st) p"
  using owned_mine owned_others by blast

lemma owned_alt:
  "owned st \<longleftrightarrow> (\<forall>p x. x \<in> mine (fileTimers st) p \<longrightarrow> (\<exists>li w off. x = timerId p li w off))"
  unfolding owned_def mine_def
  by (auto split: option.splits)

lemma mine_other_upd: "q \<noteq> p \<Longrightarrow> mine (m(p := v)) q = mine m q"
  by (simp add: mine_def)

lemma inv_logEvent: "inv (logEvent m st) = inv st"
  by (simp add: inv_def consistent_def owned_def logEvent_fields)

lemma inv_sendNtfy: "inv (sendNtfy c p st) = inv st"
  by (simp add: inv_def consistent_def owned_def sendNtfy_fields)

lemma inv_scheduleOneReminder:
  assumes "inv st" shows "inv (scheduleOneReminder st tm now)"
proof (cases rule: scheduleOneReminder_cases [where st = st and tm = tm and now = now])
  case same
  then show ?thesis using assms by simp
next
  case far
  then show ?thesis using assms by (simp add: inv_logEvent)
next
  case accept
  note acc = scheduleOneReminder_accept [OF accept]
  let ?id = "timerId (filePath tm) (lineIndex tm) (whenAt tm) (offset tm)"
  let ?p = "filePath tm"
  have c0: "\<And>x. x \<in> dom (timerHandles st) \<longleftrightarrow> x \<in> mine (fileTimers st) ?p \<or> others (fileTimers st) ?p x"
    using assms indexed_split [of "fileTimers st" _ ?p] by (simp add: inv_def consistent_alt)
  have c: "consistent (scheduleOneReminder st tm now)"
    unfolding consistent_alt acc(1,2) indexed_split [of _ _ ?p] mine_upd others_upd
    using c0 by (auto simp: mine_def)
  have o: "owned (scheduleOneReminder st tm now)"
    unfolding owned_alt acc(2)
  proof (intro allI impI)
    fix p x
    assume x: "x \<in> mine ((fileTimers st)(?p \<mapsto> insert ?id (case fileTimers st ?p of None \<Rightarrow> {} | Some ids \<Rightarrow> ids))) p"
    show "\<exists>li w off. x = timerId p li w off"
    proof (cases "p = ?p")
      case True
      then have "x = ?id \<or> x \<in> mine (fileTimers st) ?p" using x by (auto simp: mine_def)
      then show ?thesis using True assms owned_mine unfolding inv_def by blast
    next
      case False
      then have "x \<in> mine (fileTimers st) p" using x by (simp add: mine_def)
      then show ?thesis using assms owned_mine unfolding inv_def by blast
    qed
  qed
  show ?thesis using c o by (simp add: inv_def)
qed


lemma clearTimersForFile_fields:
  assumes "fileTimers st fp = Some ids"
  shows "timerHandles (clearTimersForFile st fp) = (\<lambda>id. if id \<in> ids then None else timerHandles st id)"
    and "fileTimers (clearTimersForFile st fp) = (fileTimers st)(fp := None)"
    and "pending (clearTimersForFile st fp) = (\<lambda>h. if h \<in> handlesOf st ids then None else pending st h)"
    and "nextHandle (clearTimersForFile st fp) = nextHandle st"
    and "isSender (clearTimersForFile st fp) = isSender st"
  using assms by (simp_all add: clearTimersForFile_def logEvent_def)

lemma clearTimersForFile_none:
  "fileTimers st fp = None \<Longrightarrow> clearTimersForFile st fp = st"
  by (simp add: clearTimersForFile_def)

lemma inv_clearTimersForFile:
  assumes "inv st" shows "inv (clearTimersForFile st fp)"
proof (cases "fileTimers st fp")
  case None
  then show ?thesis using assms by (simp add: clearTimersForFile_none)
next
  case (Some ids)
  note f = clearTimersForFile_fields [OF Some]
  have m: "mine (fileTimers st) fp = ids" using Some by (simp add: mine_def)
  have c0: "\<And>x. x \<in> dom (timerHandles st) \<longleftrightarrow> x \<in> ids \<or> others (fileTimers st) fp x"
    using assms indexed_split [of "fileTimers st" _ fp] m by (simp add: inv_def consistent_alt)
  have d: "\<And>x. others (fileTimers st) fp x \<Longrightarrow> x \<notin> ids"
    using assms owned_disjoint m unfolding inv_def by blast
  have c: "consistent (clearTimersForFile st fp)"
    unfolding consistent_alt f(1,2) indexed_split [of _ _ fp] mine_upd others_upd
    using c0 d by (auto simp: dom_def)
  have o: "owned (clearTimersForFile st fp)"
    unfolding owned_alt f(2)
  proof (intro allI impI)
    fix p x
    assume "x \<in> mine ((fileTimers st)(fp := None)) p"
    then have "x \<in> mine (fileTimers st) p" by (cases "p = fp") (simp_all add: mine_def)
    then show "\<exists>li w off. x = timerId p li w off" using assms owned_mine unfolding inv_def by blast
  qed
  show ?thesis using c o by (simp add: inv_def)
qed

lemma clearTimersForLine_fields:
  assumes "fileTimers st fp = Some ids"
  shows "timerHandles (clearTimersForLine st fp li) =
           (\<lambda>id. if id \<in> lineHit fp li ids then None else timerHandles st id)"
    and "fileTimers (clearTimersForLine st fp li) =
           (if ids - lineHit fp li ids = {} then (fileTimers st)(fp := None)
            else (fileTimers st)(fp \<mapsto> ids - lineHit fp li ids))"
    and "pending (clearTimersForLine st fp li) =
           (\<lambda>h. if h \<in> handlesOf st (lineHit fp li ids) then None else pending st h)"
    and "nextHandle (clearTimersForLine st fp li) = nextHandle st"
    and "isSender (clearTimersForLine st fp li) = isSender st"
  using assms by (simp_all add: clearTimersForLine_def Let_def lineHit_def)

lemma clearTimersForLine_none:
  "fileTimers st fp = None \<Longrightarrow> clearTimersForLine st fp li = st"
  by (simp add: clearTimersForLine_def)

lemma mine_line: "mine (if R = {} then m(p := None) else m(p \<mapsto> R)) p = R"
  by (simp add: mine_def)

lemma others_line: "others (if R = {} then m(p := None) else m(p \<mapsto> R)) p x = others m p x"
  by (simp add: others_upd)

lemma mine_line_other:
  "q \<noteq> p \<Longrightarrow> mine (if R = {} then m(p := None) else m(p \<mapsto> R)) q = mine m q"
  by (simp add: mine_def)

lemma inv_clearTimersForLine:
  assumes "inv st" shows "inv (clearTimersForLine st fp li)"
proof (cases "fileTimers st fp")
  case None
  then show ?thesis using assms by (simp add: clearTimersForLine_none)
next
  case (Some ids)
  note f = clearTimersForLine_fields [OF Some]
  let ?hit = "lineHit fp li ids"
  have hs: "?hit \<subseteq> ids" by (auto simp: lineHit_def)
  have m: "mine (fileTimers st) fp = ids" using Some by (simp add: mine_def)
  have c0: "\<And>x. x \<in> dom (timerHandles st) \<longleftrightarrow> x \<in> ids \<or> others (fileTimers st) fp x"
    using assms indexed_split [of "fileTimers st" _ fp] m by (simp add: inv_def consistent_alt)
  have d: "\<And>x. others (fileTimers st) fp x \<Longrightarrow> x \<notin> ids"
    using assms owned_disjoint m unfolding inv_def by blast
  have c: "consistent (clearTimersForLine st fp li)"
    unfolding consistent_alt f(1,2) indexed_split [of _ _ fp] mine_line others_line
    using c0 d hs by (auto simp: dom_def)
  have o: "owned (clearTimersForLine st fp li)"
    unfolding owned_alt f(2)
  proof (intro allI impI)
    fix p x
    assume x: "x \<in> mine (if ids - ?hit = {} then (fileTimers st)(fp := None)
                          else (fileTimers st)(fp \<mapsto> ids - ?hit)) p"
    have "x \<in> mine (fileTimers st) p"
    proof (cases "p = fp")
      case True
      from x have "x \<in> ids - ?hit" unfolding True mine_line .
      then show ?thesis using m True by simp
    next
      case False
      from x show ?thesis unfolding mine_line_other [OF False] .
    qed
    then show "\<exists>li w off. x = timerId p li w off" using assms owned_mine unfolding inv_def by blast
  qed
  show ?thesis using c o by (simp add: inv_def)
qed

lemma inv_clearAllTimers: "inv (clearAllTimers st)"
  by (simp add: inv_def consistent_def owned_def clearAllTimers_def logEvent_def)

lemma forgetFired_fields:
  "timerHandles (forgetFired st tm) =
     (timerHandles st)(timerId (filePath tm) (lineIndex tm) (whenAt tm) (offset tm) := None)"
  "fileTimers (forgetFired st tm) =
     (case fileTimers st (filePath tm) of
        None \<Rightarrow> fileTimers st
      | Some ids \<Rightarrow>
          if ids - {timerId (filePath tm) (lineIndex tm) (whenAt tm) (offset tm)} = {}
          then (fileTimers st)(filePath tm := None)
          else (fileTimers st)(filePath tm \<mapsto>
                 ids - {timerId (filePath tm) (lineIndex tm) (whenAt tm) (offset tm)}))"
  "pending (forgetFired st tm) = pending st"
  "nextHandle (forgetFired st tm) = nextHandle st"
  "isSender (forgetFired st tm) = isSender st"
  by (simp_all add: forgetFired_def Let_def split: option.splits)

lemma inv_forgetFired:
  assumes "inv st" shows "inv (forgetFired st tm)"
proof -
  let ?id = "timerId (filePath tm) (lineIndex tm) (whenAt tm) (offset tm)"
  let ?p = "filePath tm"
  let ?S = "mine (fileTimers st) ?p"
  have ft: "fileTimers (forgetFired st tm) =
      (case fileTimers st ?p of None \<Rightarrow> fileTimers st
       | Some ids \<Rightarrow> if ids - {?id} = {} then (fileTimers st)(?p := None)
                     else (fileTimers st)(?p \<mapsto> ids - {?id}))"
    by (rule forgetFired_fields)
  have m': "mine (fileTimers (forgetFired st tm)) ?p = ?S - {?id}"
    unfolding ft by (cases "fileTimers st ?p") (simp_all add: mine_def)
  have o': "\<And>x. others (fileTimers (forgetFired st tm)) ?p x = others (fileTimers st) ?p x"
    unfolding ft by (cases "fileTimers st ?p") (simp_all add: others_upd)
  have mo: "\<And>q. q \<noteq> ?p \<Longrightarrow> mine (fileTimers (forgetFired st tm)) q = mine (fileTimers st) q"
    unfolding ft by (cases "fileTimers st ?p") (simp_all add: mine_def)
  have c0: "\<And>x. x \<in> dom (timerHandles st) \<longleftrightarrow> x \<in> ?S \<or> others (fileTimers st) ?p x"
    using assms indexed_split [of "fileTimers st" _ ?p] by (simp add: inv_def consistent_alt)
  have d: "\<not> others (fileTimers st) ?p ?id"
    using assms owned_others unfolding inv_def by blast
  have c: "consistent (forgetFired st tm)"
    unfolding consistent_alt forgetFired_fields(1) indexed_split [of _ _ ?p] m' o'
    using c0 d by (auto simp: dom_def)
  have o: "owned (forgetFired st tm)"
    unfolding owned_alt
  proof (intro allI impI)
    fix p x
    assume x: "x \<in> mine (fileTimers (forgetFired st tm)) p"
    have "x \<in> mine (fileTimers st) p"
      using x m' mo by (cases "p = ?p") auto
    then show "\<exists>li w off. x = timerId p li w off" using assms owned_mine unfolding inv_def by blast
  qed
  show ?thesis using c o by (simp add: inv_def)
qed

lemma inv_pending_upd: "inv (st\<lparr>pending := p\<rparr>) = inv st"
  by (simp add: inv_def consistent_def owned_def)

lemma inv_fire:
  assumes "inv st" "fire st h now = Some st'" shows "inv st'"
proof (cases "pending st h")
  case None
  then show ?thesis using assms by (simp add: fire_def)
next
  case (Some tm)
  let ?st1 = "(if \<not> isSender st then logEvent ''SKIP fire (role became SILENT)'' (st\<lparr>pending := (pending st)(h := None)\<rparr>)
               else sendNtfy (ctxt tm) (prio tm) (logEvent ''FIRING'' (st\<lparr>pending := (pending st)(h := None)\<rparr>)))"
  have i1: "inv ?st1"
    using assms(1) by (simp add: inv_logEvent inv_sendNtfy inv_pending_upd)
  have i2: "inv (forgetFired ?st1 tm)" using i1 by (rule inv_forgetFired)
  show ?thesis
    using assms(2) Some i2 inv_scheduleOneReminder [OF i2]
    by (auto simp: fire_def Let_def split: option.splits if_splits)
qed

lemma inv_applyOp: "inv st \<Longrightarrow> applyOp st x = Some st' \<Longrightarrow> inv st'"
  by (cases x)
    (auto simp: inv_scheduleOneReminder inv_clearTimersForLine inv_clearTimersForFile
       inv_clearAllTimers inv_fire)

lemma inv_runOps: "inv st \<Longrightarrow> runOps st xs = Some st' \<Longrightarrow> inv st'"
proof (induction xs arbitrary: st)
  case Nil
  then show ?case by simp
next
  case (Cons x xs)
  then show ?case by (auto split: option.splits dest: inv_applyOp)
qed

lemma inv_onload: "inv (onload cfg b)"
  by (simp add: inv_def consistent_def owned_def onload_def)

subsection \<open>Registering the same id twice\<close>

text \<open>
  Claim C7. \<open>scheduleOneReminder\<close> called with an id that is already among the live timers
  returns the plugin unchanged: no platform timer is created and both indices stay as they
  were. After a registration that was accepted, a second call with the same composite key
  (path, line, epoch seconds, offset) changes nothing, and the platform holds exactly the one
  timer of the first call.
\<close>

theorem schedule_same_id_noop:
  "(timerHandles st (timerId (filePath tm) (lineIndex tm) (whenAt tm) (offset tm)) \<noteq> None \<longrightarrow>
      scheduleOneReminder st tm now = st) \<and>
   (timerHandles st (timerId (filePath tm) (lineIndex tm) (whenAt tm) (offset tm)) = None \<and>
    0 < whenAt tm - now \<and> whenAt tm - now \<le> MAX_TIMEOUT_MS \<and>
    filePath tm' = filePath tm \<and> lineIndex tm' = lineIndex tm \<and>
    unix (whenAt tm') = unix (whenAt tm) \<and> offset tm' = offset tm \<longrightarrow>
      scheduleOneReminder (scheduleOneReminder st tm now) tm' now' = scheduleOneReminder st tm now \<and>
      pending (scheduleOneReminder (scheduleOneReminder st tm now) tm' now') =
        (pending st)(nextHandle st \<mapsto> tm) \<and>
      nextHandle (scheduleOneReminder (scheduleOneReminder st tm now) tm' now') =
        Suc (nextHandle st))"
proof (intro conjI impI)
  assume "timerHandles st (timerId (filePath tm) (lineIndex tm) (whenAt tm) (offset tm)) \<noteq> None"
  then show "scheduleOneReminder st tm now = st" by (rule scheduleOneReminder_present)
next
  assume a: "timerHandles st (timerId (filePath tm) (lineIndex tm) (whenAt tm) (offset tm)) = None \<and>
    0 < whenAt tm - now \<and> whenAt tm - now \<le> MAX_TIMEOUT_MS \<and>
    filePath tm' = filePath tm \<and> lineIndex tm' = lineIndex tm \<and>
    unix (whenAt tm') = unix (whenAt tm) \<and> offset tm' = offset tm"
  then have acc: "timerHandles st (timerId (filePath tm) (lineIndex tm) (whenAt tm) (offset tm)) = None"
    "0 < whenAt tm - now" "whenAt tm - now \<le> MAX_TIMEOUT_MS" by simp_all
  have same: "timerId (filePath tm') (lineIndex tm') (whenAt tm') (offset tm') =
      timerId (filePath tm) (lineIndex tm) (whenAt tm) (offset tm)"
    using a by (simp add: timerId_def)
  have "timerHandles (scheduleOneReminder st tm now)
          (timerId (filePath tm') (lineIndex tm') (whenAt tm') (offset tm')) \<noteq> None"
    unfolding same scheduleOneReminder_accept(1) [OF acc] by simp
  then show second: "scheduleOneReminder (scheduleOneReminder st tm now) tm' now' =
      scheduleOneReminder st tm now"
    by (rule scheduleOneReminder_present)
  show "pending (scheduleOneReminder (scheduleOneReminder st tm now) tm' now') =
        (pending st)(nextHandle st \<mapsto> tm)"
    unfolding second by (rule scheduleOneReminder_accept(3) [OF acc])
  show "nextHandle (scheduleOneReminder (scheduleOneReminder st tm now) tm' now') =
        Suc (nextHandle st)"
    unfolding second by (rule scheduleOneReminder_accept(4) [OF acc])
qed

theorem schedule_same_id_noop_witness:
  "scheduleOneReminder
     (scheduleOneReminder (onload \<lparr>dismissStatusChars = [], senderHostnames = [], senderIPsCidrs = []\<rparr> True)
        \<lparr>filePath = js ''a.md'', lineIndex = 1, whenAt = 5000, prio = 3, ctxt = js ''call'',
         offset = 2, recur = None\<rparr> 0)
     \<lparr>filePath = js ''a.md'', lineIndex = 1, whenAt = 5400, prio = 5, ctxt = js ''call back'',
      offset = 2, recur = None\<rparr> 70 =
   scheduleOneReminder (onload \<lparr>dismissStatusChars = [], senderHostnames = [], senderIPsCidrs = []\<rparr> True)
     \<lparr>filePath = js ''a.md'', lineIndex = 1, whenAt = 5000, prio = 3, ctxt = js ''call'',
      offset = 2, recur = None\<rparr> 0"
  using schedule_same_id_noop
    [where st = "onload \<lparr>dismissStatusChars = [], senderHostnames = [], senderIPsCidrs = []\<rparr> True"
       and tm = "\<lparr>filePath = js ''a.md'', lineIndex = 1, whenAt = 5000, prio = 3, ctxt = js ''call'',
         offset = 2, recur = None\<rparr>"
       and tm' = "\<lparr>filePath = js ''a.md'', lineIndex = 1, whenAt = 5400, prio = 5, ctxt = js ''call back'',
         offset = 2, recur = None\<rparr>"
       and now = 0 and now' = 70, THEN conjunct2]
  by (simp add: onload_def MAX_TIMEOUT_MS_def unix_def)

subsection \<open>Rejected registrations\<close>



subsection \<open>Consistency of the two indices\<close>

lemma advanceLoop_done: "next > now \<Longrightarrow> advanceLoop r next now = Some next"
  by (subst advanceLoop.simps) simp

lemma showNat_digit: "n < 10 \<Longrightarrow> showNat n = [48 + n]"
  by (subst showNat.simps) simp

lemma run_example:
  "\<exists>st. runOps (onload \<lparr>dismissStatusChars = [], senderHostnames = [], senderIPsCidrs = []\<rparr> True)
     [Schedule \<lparr>filePath = js ''a.md'', lineIndex = 1, whenAt = 5000, prio = 3, ctxt = js ''call'',
               offset = 2, recur = None\<rparr> 0,
      Schedule \<lparr>filePath = js ''b.md'', lineIndex = 0, whenAt = 60000, prio = 3, ctxt = js ''tea'',
               offset = 4, recur = Some \<lparr>every = 1, unit = js ''minutes''\<rparr>\<rparr> 0,
      CancelForLine (js ''a.md'') 1,
      Fire 2 70000,
      CancelForDocument (js ''a.md''),
      CancelAll] = Some st"
  by (simp add: onload_def scheduleOneReminder_def Let_def MAX_TIMEOUT_MS_def logEvent_def
      noteScheduled_def clearTimersForLine_def timerId_def showNat_digit showInt_def unix_def js_def
      fire_def forgetFired_def sendNtfy_def momentAdd_def unitMillis_def advanceLoop_done
      startsWith_def handlesOf_def)
text \<open>
  Claim C8. After any sequence of schedule, cancel-for-line, cancel-for-document, cancel-all
  and fire operations on the registry created by \<open>onload\<close>, an id has an entry in the primary
  map exactly when it is a member of some document's set of the secondary index. Every
  operation is one step of the model, so the two indices change together.
\<close>

theorem registry_indices_consistent:
  assumes "runOps (onload cfg sender) xs = Some st"
  shows "\<forall>id. id \<in> dom (timerHandles st) \<longleftrightarrow>
              (\<exists>fp ids. fileTimers st fp = Some ids \<and> id \<in> ids)"
  using inv_runOps [OF inv_onload assms] by (simp add: inv_def consistent_def)

theorem registry_indices_consistent_witness:
  "runOps (onload \<lparr>dismissStatusChars = [], senderHostnames = [], senderIPsCidrs = []\<rparr> True)
     [Schedule \<lparr>filePath = js ''a.md'', lineIndex = 1, whenAt = 5000, prio = 3, ctxt = js ''call'',
               offset = 2, recur = None\<rparr> 0,
      Schedule \<lparr>filePath = js ''b.md'', lineIndex = 0, whenAt = 60000, prio = 3, ctxt = js ''tea'',
               offset = 4, recur = Some \<lparr>every = 1, unit = js ''minutes''\<rparr>\<rparr> 0,
      CancelForLine (js ''a.md'') 1,
      Fire 2 70000,
      CancelForDocument (js ''a.md''),
      CancelAll] \<noteq> None \<and>
   consistent (the (runOps (onload \<lparr>dismissStatusChars = [], senderHostnames = [], senderIPsCidrs = []\<rparr> True)
     [Schedule \<lparr>filePath = js ''a.md'', lineIndex = 1, whenAt = 5000, prio = 3, ctxt = js ''call'',
               offset = 2, recur = None\<rparr> 0,
      Schedule \<lparr>filePath = js ''b.md'', lineIndex = 0, whenAt = 60000, prio = 3, ctxt = js ''tea'',
               offset = 4, recur = Some \<lparr>every = 1, unit = js ''minutes''\<rparr>\<rparr> 0,
      CancelForLine (js ''a.md'') 1,
      Fire 2 70000,
      CancelForDocument (js ''a.md''),
      CancelAll]))"
proof -
  obtain st where r: "runOps (onload \<lparr>dismissStatusChars = [], senderHostnames = [], senderIPsCidrs = []\<rparr> True)
     [Schedule \<lparr>filePath = js ''a.md'', lineIndex = 1, whenAt = 5000, prio = 3, ctxt = js ''call'',
               offset = 2, recur = None\<rparr> 0,
      Schedule \<lparr>filePath = js ''b.md'', lineIndex = 0, whenAt = 60000, prio = 3, ctxt = js ''tea'',
               offset = 4, recur = Some \<lparr>every = 1, unit = js ''minutes''\<rparr>\<rparr> 0,
      CancelForLine (js ''a.md'') 1,
      Fire 2 70000,
      CancelForDocument (js ''a.md''),
      CancelAll] = Some st"
    using run_example by blast
  from registry_indices_consistent [OF r] have "consistent st" by (simp add: consistent_def)
  with r show ?thesis by simp
qed

section \<open>Properties of recurrences\<close>









lemma fire_once:
  assumes "pending st h = Some tm" "recur tm = None" "isSender st"
  shows "fire st h now =
    Some (forgetFired (sendNtfy (ctxt tm) (prio tm) (logEvent ''FIRING''
            (st\<lparr>pending := (pending st)(h := None)\<rparr>))) tm)"
  using assms by (simp add: fire_def Let_def)











section \<open>Properties of the stamp parser\<close>


lemma js_am_pm: "js ''am'' = [97, 109]" "js ''pm'' = [112, 109]"
  by (simp_all add: js_def)

lemma isAmPm_lower:
  "isAmPm u \<Longrightarrow> toLowerCase (take 2 u) = js ''am'' \<or> toLowerCase (take 2 u) = js ''pm''"
  by (auto simp: isAmPm_def toLowerCase_def lowerUnit_def js_am_pm split: list.splits)

lemma tailAt_ap:
  "tailAt k t = Some (n, Some a) \<Longrightarrow> toLowerCase a = js ''am'' \<or> toLowerCase a = js ''pm''"
  using isAmPm_lower [of "drop k t"]
  by (auto simp: tailAt_def Let_def split: if_splits)

lemma tailTry_ap:
  "tailTry k t = Some (n, Some a) \<Longrightarrow> toLowerCase a = js ''am'' \<or> toLowerCase a = js ''pm''"
proof (induction k)
  case 0
  then show ?case using tailAt_ap by simp
next
  case (Suc k)
  then show ?case using tailAt_ap by (auto split: option.splits)
qed

lemma matchTail_ap:
  "matchTail t = Some (n, Some a) \<Longrightarrow> toLowerCase a = js ''am'' \<or> toLowerCase a = js ''pm''"
  unfolding matchTail_def by (rule tailTry_ap)

lemma matchMinutes_cases:
  assumes "matchMinutes t = Some (n, mi, ap)"
  obtains (withMinutes) a b t' k where "t = 58 # a # b # t'" "48 \<le> a" "a \<le> 53" "isDigit b"
      "matchTail t' = Some (k, ap)" "mi = Some [a, b]" "n = 3 + k"
  | (without) "matchTail t = Some (n, ap)" "mi = None"
  using assms unfolding matchMinutes_def Let_def
  by (auto split: list.splits if_splits option.splits)

lemma matchMinutes_shape:
  assumes "matchMinutes t = Some (n, mi, ap)"
  shows "(\<forall>a. ap = Some a \<longrightarrow> toLowerCase a = js ''am'' \<or> toLowerCase a = js ''pm'')"
    and "(\<forall>s. mi = Some s \<longrightarrow> s \<noteq> [] \<and> list_all isDigit s \<and> decVal s \<le> 59)"
proof -
  show "(\<forall>a. ap = Some a \<longrightarrow> toLowerCase a = js ''am'' \<or> toLowerCase a = js ''pm'')"
    using assms by (cases rule: matchMinutes_cases) (auto dest: matchTail_ap)
  show "(\<forall>s. mi = Some s \<longrightarrow> s \<noteq> [] \<and> list_all isDigit s \<and> decVal s \<le> 59)"
    using assms by (cases rule: matchMinutes_cases) (auto simp: isDigit_def decVal_def)
qed

lemma matchHour_cases:
  assumes "matchHour t = Some (n, h, mi, ap)"
  obtains (two) a b t' k where "t = a # b # t'" "isDigit a" "isDigit b"
      "matchMinutes t' = Some (k, mi, ap)" "h = [a, b]" "n = 2 + k"
  | (one) a t' k where "t = a # t'" "isDigit a"
      "matchMinutes t' = Some (k, mi, ap)" "h = [a]" "n = 1 + k"
  using assms unfolding matchHour_def Let_def
  by (auto split: list.splits if_splits option.splits)

lemma matchHour_shape:
  assumes "matchHour t = Some (n, h, mi, ap)"
  shows "(\<forall>a. ap = Some a \<longrightarrow> toLowerCase a = js ''am'' \<or> toLowerCase a = js ''pm'')"
    and "(\<forall>s. mi = Some s \<longrightarrow> s \<noteq> [] \<and> list_all isDigit s \<and> decVal s \<le> 59)"
    and "h \<noteq> [] \<and> list_all isDigit h"
proof -
  from assms obtain t' k where m: "matchMinutes t' = Some (k, mi, ap)"
    and h: "h \<noteq> [] \<and> list_all isDigit h"
    by (cases rule: matchHour_cases) auto
  show "(\<forall>a. ap = Some a \<longrightarrow> toLowerCase a = js ''am'' \<or> toLowerCase a = js ''pm'')"
    using matchMinutes_shape(1) [OF m] .
  show "(\<forall>s. mi = Some s \<longrightarrow> s \<noteq> [] \<and> list_all isDigit s \<and> decVal s \<le> 59)"
    using matchMinutes_shape(2) [OF m] .
  show "h \<noteq> [] \<and> list_all isDigit h" using h .
qed

lemma matchAfterClock_shape:
  assumes "matchAfterClock t = Some m"
  shows "(\<forall>a. apStr m = Some a \<longrightarrow> toLowerCase a = js ''am'' \<or> toLowerCase a = js ''pm'')"
    and "(\<forall>s. minStr m = Some s \<longrightarrow> s \<noteq> [] \<and> list_all isDigit s \<and> decVal s \<le> 59)"
    and "hourStr m \<noteq> [] \<and> list_all isDigit (hourStr m)"
    and "isDateText (dateStr m)"
    and "1 \<le> mlen m"
proof -
  from assms obtain t3 n h mi ap where mh: "matchHour t3 = Some (n, h, mi, ap)"
    and f: "hourStr m = h" "minStr m = mi" "apStr m = ap" "isDateText (dateStr m)" "1 \<le> mlen m"
    by (auto simp: matchAfterClock_def Let_def split: option.splits if_splits)
  show "(\<forall>a. apStr m = Some a \<longrightarrow> toLowerCase a = js ''am'' \<or> toLowerCase a = js ''pm'')"
    using matchHour_shape(1) [OF mh] f by simp
  show "(\<forall>s. minStr m = Some s \<longrightarrow> s \<noteq> [] \<and> list_all isDigit s \<and> decVal s \<le> 59)"
    using matchHour_shape(2) [OF mh] f by simp
  show "hourStr m \<noteq> [] \<and> list_all isDigit (hourStr m)"
    using matchHour_shape(3) [OF mh] f by simp
  show "isDateText (dateStr m)" using f by simp
  show "1 \<le> mlen m" using f by simp
qed

lemma matchAllFrom_matched:
  "(s, m) \<in> set (matchAllFrom i xs) \<Longrightarrow> \<exists>t. matchAfterClock t = Some m"
proof (induction i xs rule: matchAllFrom.induct)
  case (1 i)
  then show ?case by simp
next
  case (2 i c cs)
  then show ?case by (auto split: if_splits option.splits)
qed

lemma parseInt10_digits:
  assumes "s \<noteq> []" "list_all isDigit s"
  shows "parseInt10 s = Some (int (decVal s))"
proof -
  obtain c r where s: "s = c # r" using assms(1) by (cases s) auto
  have c: "isDigit c" using assms(2) s by simp
  then have ns: "\<not> isSpace c" "c \<noteq> 45" "c \<noteq> 43" by (auto simp: isDigit_def isSpace_def)
  have tw: "takeWhile isDigit s = s" using assms(2) by (simp add: list_all_iff)
  show ?thesis using ns tw assms(1) by (simp add: parseInt10_def s Let_def)
qed


lemma resolveHour_cases:
  "resolveHour h (Some (js ''pm'')) = (if h < 12 then h + 12 else h)"
  "resolveHour h (Some (js ''am'')) = (if h = 12 then 0 else h)"
  "resolveHour h None = h"
  by (simp_all add: resolveHour_def js_def)

lemma parseOne_resolved:
  assumes "hourStr m \<noteq> [] \<and> list_all isDigit (hourStr m)"
    and "\<forall>s. minStr m = Some s \<longrightarrow> s \<noteq> [] \<and> list_all isDigit s"
  shows "case parseOne line start m nextStart of
           None \<Rightarrow>
             resolveHour (int (decVal (hourStr m))) (map_option toLowerCase (apStr m)) > 23 \<or>
             (case minStr m of None \<Rightarrow> 0 | Some s \<Rightarrow> int (decVal s)) > 59 \<or>
             \<not> isValid (momentOf (dateStr m)
                  (resolveHour (int (decVal (hourStr m))) (map_option toLowerCase (apStr m)))
                  (case minStr m of None \<Rightarrow> 0 | Some s \<Rightarrow> int (decVal s)))
         | Some oc \<Rightarrow>
             occWhen oc = momentOf (dateStr m)
                  (resolveHour (int (decVal (hourStr m))) (map_option toLowerCase (apStr m)))
                  (case minStr m of None \<Rightarrow> 0 | Some s \<Rightarrow> int (decVal s)) \<and>
             resolveHour (int (decVal (hourStr m))) (map_option toLowerCase (apStr m)) \<le> 23 \<and>
             (case minStr m of None \<Rightarrow> 0 | Some s \<Rightarrow> int (decVal s)) \<le> 59"
proof -
  have h: "parseInt10 (hourStr m) = Some (int (decVal (hourStr m)))"
    using assms(1) by (simp add: parseInt10_digits)
  have mi: "(case minStr m of None \<Rightarrow> Some 0 | Some ms \<Rightarrow> parseInt10 ms) =
      Some (case minStr m of None \<Rightarrow> 0 | Some s \<Rightarrow> int (decVal s))"
    using assms(2) by (cases "minStr m") (simp_all add: parseInt10_digits)
  show ?thesis
    unfolding parseOne_def h mi by (simp add: Let_def)
qed

lemma parseOne_valid: "parseOne line start m nextStart = Some oc \<Longrightarrow> isValid (occWhen oc)"
  unfolding parseOne_def
  by (auto simp: Let_def split: option.splits if_splits prod.splits)

lemma parseMatches_valid: "oc \<in> set (parseMatches line ms) \<Longrightarrow> isValid (occWhen oc)"
proof (induction line ms rule: parseMatches.induct)
  case (1 line)
  then show ?case by simp
next
  case (2 line start m rest)
  then show ?case
    by (auto simp: Let_def split: option.splits dest: parseOne_valid parseOne_valid [OF sym])
qed


subsection \<open>Evaluation of the parser on a line with a 12-hour stamp\<close>


lemma am_line_tail: "matchTail (js '' am'') = Some (3, Some (js ''am''))"
  by (simp add: matchTail_def tailAt_def isAmPm_def wordBoundary_def isSpace_def isWordChar_def isDigit_def js_def)

lemma am_line_minutes: "matchMinutes (js '':30 am'') = Some (6, Some (js ''30''), Some (js ''am''))"
  by (simp add: matchMinutes_def am_line_tail [unfolded js_def, simplified] isDigit_def js_def)

lemma am_line_hour: "matchHour (js ''12:30 am'') = Some (8, js ''12'', Some (js ''30''), Some (js ''am''))"
  by (simp add: matchHour_def am_line_minutes [unfolded js_def, simplified] isDigit_def js_def)

lemma am_line_stamp: "matchAfterClock (js '' 2025-09-01 12:30 am'') =
    Some \<lparr>mlen = 21, dateStr = js ''2025-09-01'', hourStr = js ''12'', minStr = Some (js ''30''),
         apStr = Some (js ''am'')\<rparr>"
  by (simp add: matchAfterClock_def am_line_hour [unfolded js_def, simplified] isDateText_def isSpace_def isDigit_def js_def)

lemma am_line_matches: "matchAllFrom 0 (9200 # js '' 2025-09-01 12:30 am'') =
    [(0, \<lparr>mlen = 21, dateStr = js ''2025-09-01'', hourStr = js ''12'', minStr = Some (js ''30''),
         apStr = Some (js ''am'')\<rparr>)]"
  by (simp add: am_line_stamp [unfolded js_def, simplified] js_def)

lemma matchEvery_Nil: "matchEvery [] = None"
  by (simp add: matchEvery_def js_def)

lemma am_line_parseOne: "parseOne (9200 # js '' 2025-09-01 12:30 am'') 0
     \<lparr>mlen = 21, dateStr = js ''2025-09-01'', hourStr = js ''12'', minStr = Some (js ''30''),
         apStr = Some (js ''am'')\<rparr> (length (9200 # js '' 2025-09-01 12:30 am'')) =
   Some \<lparr>occWhen = \<lparr>year = 2025, month = 9, day = 1, hour = 0, minute = 30\<rparr>, occContext = [],
     occRaw = 9200 # js '' 2025-09-01 12:30 am'', occOffset = 0, occRecur = None\<rparr>"
  by (simp add: parseOne_def parseInt10_def isSpace_def isDigit_def decVal_def resolveHour_def
      toLowerCase_def lowerUnit_def momentOf_def isValid_def daysInMonth_def sliceStr_def
      parseRecur_def matchEvery_Nil contextOf_def trim_def js_def)

lemma am_line_parse: "parseClockEmojiAll (9200 # js '' 2025-09-01 12:30 am'') =
   [\<lparr>occWhen = \<lparr>year = 2025, month = 9, day = 1, hour = 0, minute = 30\<rparr>, occContext = [],
     occRaw = 9200 # js '' 2025-09-01 12:30 am'', occOffset = 0, occRecur = None\<rparr>]"
  unfolding parseClockEmojiAll_def am_line_matches
  by (simp only: parseMatches.simps Let_def list.case am_line_parseOne option.case append.simps)

text \<open>
  Claim C6. For every match of the stamp pattern the indicator, if any, is am or pm in any
  letter case; the hour is resolved by adding 12 when the indicator is pm and the hour is
  below 12, and by taking 0 when the indicator is am and the hour is 12. The parser yields
  no occurrence for the match exactly when the resolved hour exceeds 23, the minute exceeds
  59 or the date and time do not form a valid moment; otherwise the occurrence carries the
  moment of the date text, the resolved hour and the minute. Every occurrence returned by
  \<open>parseClockEmojiAll\<close> has a valid date and time.
\<close>

theorem stamp_resolution:
  "resolveHour h (Some (js ''pm'')) = (if h < 12 then h + 12 else h) \<and>
   resolveHour h (Some (js ''am'')) = (if h = 12 then 0 else h) \<and>
   resolveHour h None = h \<and>
   ((start, m) \<in> set (matchAllFrom 0 line) \<longrightarrow>
      (\<forall>a. apStr m = Some a \<longrightarrow> toLowerCase a = js ''am'' \<or> toLowerCase a = js ''pm'') \<and>
      (case parseOne line start m nextStart of
         None \<Rightarrow>
           resolveHour (int (decVal (hourStr m))) (map_option toLowerCase (apStr m)) > 23 \<or>
           (case minStr m of None \<Rightarrow> 0 | Some s \<Rightarrow> int (decVal s)) > 59 \<or>
           \<not> isValid (momentOf (dateStr m)
                (resolveHour (int (decVal (hourStr m))) (map_option toLowerCase (apStr m)))
                (case minStr m of None \<Rightarrow> 0 | Some s \<Rightarrow> int (decVal s)))
       | Some oc \<Rightarrow>
           occWhen oc = momentOf (dateStr m)
                (resolveHour (int (decVal (hourStr m))) (map_option toLowerCase (apStr m)))
                (case minStr m of None \<Rightarrow> 0 | Some s \<Rightarrow> int (decVal s)) \<and>
           resolveHour (int (decVal (hourStr m))) (map_option toLowerCase (apStr m)) \<le> 23 \<and>
           (case minStr m of None \<Rightarrow> 0 | Some s \<Rightarrow> int (decVal s)) \<le> 59)) \<and>
   (\<forall>oc \<in> set (parseClockEmojiAll line). isValid (occWhen oc))"
proof (intro conjI impI ballI)
  show "resolveHour h (Some (js ''pm'')) = (if h < 12 then h + 12 else h)"
    "resolveHour h (Some (js ''am'')) = (if h = 12 then 0 else h)"
    "resolveHour h None = h"
    by (rule resolveHour_cases)+
next
  assume "(start, m) \<in> set (matchAllFrom 0 line)"
  then obtain t where t: "matchAfterClock t = Some m" using matchAllFrom_matched by blast
  show "\<forall>a. apStr m = Some a \<longrightarrow> toLowerCase a = js ''am'' \<or> toLowerCase a = js ''pm''"
    using matchAfterClock_shape(1) [OF t] .
  have "\<forall>s. minStr m = Some s \<longrightarrow> s \<noteq> [] \<and> list_all isDigit s"
    using matchAfterClock_shape(2) [OF t] by blast
  from parseOne_resolved [OF matchAfterClock_shape(3) [OF t] this]
  show "case parseOne line start m nextStart of
         None \<Rightarrow>
           resolveHour (int (decVal (hourStr m))) (map_option toLowerCase (apStr m)) > 23 \<or>
           (case minStr m of None \<Rightarrow> 0 | Some s \<Rightarrow> int (decVal s)) > 59 \<or>
           \<not> isValid (momentOf (dateStr m)
                (resolveHour (int (decVal (hourStr m))) (map_option toLowerCase (apStr m)))
                (case minStr m of None \<Rightarrow> 0 | Some s \<Rightarrow> int (decVal s)))
       | Some oc \<Rightarrow>
           occWhen oc = momentOf (dateStr m)
                (resolveHour (int (decVal (hourStr m))) (map_option toLowerCase (apStr m)))
                (case minStr m of None \<Rightarrow> 0 | Some s \<Rightarrow> int (decVal s)) \<and>
           resolveHour (int (decVal (hourStr m))) (map_option toLowerCase (apStr m)) \<le> 23 \<and>
           (case minStr m of None \<Rightarrow> 0 | Some s \<Rightarrow> int (decVal s)) \<le> 59" .
next
  fix oc assume "oc \<in> set (parseClockEmojiAll line)"
  then show "isValid (occWhen oc)"
    unfolding parseClockEmojiAll_def by (rule parseMatches_valid)
qed



theorem stamp_resolution_witness:
  "(0, \<lparr>mlen = 21, dateStr = js ''2025-09-01'', hourStr = js ''12'', minStr = Some (js ''30''),
         apStr = Some (js ''am'')\<rparr>) \<in> set (matchAllFrom 0 (9200 # js '' 2025-09-01 12:30 am'')) \<and>
   resolveHour 12 (Some (js ''am'')) = 0 \<and>
   \<lparr>occWhen = \<lparr>year = 2025, month = 9, day = 1, hour = 0, minute = 30\<rparr>, occContext = [],
     occRaw = 9200 # js '' 2025-09-01 12:30 am'', occOffset = 0, occRecur = None\<rparr>
     \<in> set (parseClockEmojiAll (9200 # js '' 2025-09-01 12:30 am'')) \<and>
   isValid \<lparr>year = 2025, month = 9, day = 1, hour = 0, minute = 30\<rparr> \<and>
   momentOf (js ''2025-09-01'') 0 30 = \<lparr>year = 2025, month = 9, day = 1, hour = 0, minute = 30\<rparr>"
proof -
  have m: "(0, \<lparr>mlen = 21, dateStr = js ''2025-09-01'', hourStr = js ''12'',
       minStr = Some (js ''30''), apStr = Some (js ''am'')\<rparr>)
      \<in> set (matchAllFrom 0 (9200 # js '' 2025-09-01 12:30 am''))"
    unfolding am_line_matches by simp
  have d: "int (decVal (js ''12'')) = 12" "int (decVal (js ''30'')) = 30"
    "toLowerCase (js ''am'') = js ''am''"
    by (simp_all add: decVal_def js_def toLowerCase_def lowerUnit_def)
  note t = stamp_resolution [where line = "9200 # js '' 2025-09-01 12:30 am''" and start = 0
      and m = "\<lparr>mlen = 21, dateStr = js ''2025-09-01'', hourStr = js ''12'',
         minStr = Some (js ''30''), apStr = Some (js ''am'')\<rparr>"
      and nextStart = "length (9200 # js '' 2025-09-01 12:30 am'')" and h = 12]
  from t have r: "resolveHour 12 (Some (js ''am'')) = 0" by simp
  from t m have "occWhen \<lparr>occWhen = \<lparr>year = 2025, month = 9, day = 1, hour = 0, minute = 30\<rparr>,
        occContext = [], occRaw = 9200 # js '' 2025-09-01 12:30 am'', occOffset = 0,
        occRecur = None\<rparr> = momentOf (js ''2025-09-01'') 0 30"
    unfolding am_line_parseOne by (simp add: d r)
  then have mo: "momentOf (js ''2025-09-01'') 0 30 =
      \<lparr>year = 2025, month = 9, day = 1, hour = 0, minute = 30\<rparr>" by simp
  from t have "\<forall>oc \<in> set (parseClockEmojiAll (9200 # js '' 2025-09-01 12:30 am'')). isValid (occWhen oc)"
    by blast
  then have v: "isValid \<lparr>year = 2025, month = 9, day = 1, hour = 0, minute = 30\<rparr>"
    unfolding am_line_parse by simp
  show ?thesis using m r v mo unfolding am_line_parse by simp
qed


subsection \<open>Recurrence suffixes\<close>


lemma unitAlternatives_set:
  "set unitAlternatives = set (map js [''minutes'', ''minute'', ''min'', ''m'', ''hours'', ''hour'',
      ''hr'', ''h'', ''days'', ''day'', ''d'', ''weeks'', ''week'', ''w''])"
  by (simp add: unitAlternatives_def)

lemma normalizeUnit_alternatives:
  "tok \<in> set unitAlternatives \<Longrightarrow> normalizeUnit tok \<noteq> None"
  unfolding unitAlternatives_set by (auto simp: normalizeUnit_def js_def)

lemma normalizeUnit_range:
  "normalizeUnit tok = Some u \<Longrightarrow> u \<in> {js ''minutes'', js ''hours'', js ''days'', js ''weeks''}"
  by (simp add: normalizeUnit_def split: if_splits)

lemma matchEvery_shape:
  assumes "matchEvery t = Some rm"
  shows "countStr rm \<noteq> [] \<and> list_all isDigit (countStr rm)"
    and "toLowerCase (unitStr rm) \<in> set unitAlternatives"
proof -
  define t3 where "t3 = dropWhile isSpace (drop 5 (dropWhile isSpace t))"
  define t5 where "t5 = dropWhile isSpace (dropWhile isDigit t3)"
  define P where "P = (\<lambda>tok. map lowerUnit (take (length tok) t5) = tok \<and>
                              wordBoundary True (drop (length tok) t5))"
  define C where "C \<longleftrightarrow> map lowerUnit (take 5 (dropWhile isSpace t)) = js ''every'' \<and>
      takeWhile isSpace (drop 5 (dropWhile isSpace t)) \<noteq> [] \<and> takeWhile isDigit t3 \<noteq> []"
  have eq: "matchEvery t =
      (if C then
         (case find P unitAlternatives of
            None \<Rightarrow> None
          | Some tok \<Rightarrow> Some \<lparr>rlen = length t - length t5 + length tok,
                              countStr = takeWhile isDigit t3,
                              unitStr = take (length tok) t5\<rparr>)
       else None)"
    unfolding matchEvery_def Let_def t3_def t5_def P_def C_def by (rule refl)
  have c: "C" using assms unfolding eq by (cases C) simp_all
  obtain tok where f: "find P unitAlternatives = Some tok"
    using assms c unfolding eq by (cases "find P unitAlternatives") simp_all
  have rm: "rm = \<lparr>rlen = length t - length t5 + length tok,
                  countStr = takeWhile isDigit t3, unitStr = take (length tok) t5\<rparr>"
    using assms c f unfolding eq by simp
  from f have "tok \<in> set unitAlternatives" "P tok"
    by (auto simp: find_Some_iff)
  then show "toLowerCase (unitStr rm) \<in> set unitAlternatives"
    unfolding rm P_def by (simp add: toLowerCase_def)
  have "list_all isDigit (takeWhile isDigit t3)"
    by (auto simp: list_all_iff dest: set_takeWhileD)
  then show "countStr rm \<noteq> [] \<and> list_all isDigit (countStr rm)"
    using c unfolding rm C_def by simp
qed

lemma parseRecur_total:
  assumes "matchEvery t = Some rm"
  shows "\<exists>u \<in> {js ''minutes'', js ''hours'', js ''days'', js ''weeks''}.
           parseRecur t = Some (\<lparr>every = max 1 (int (decVal (countStr rm))), unit = u\<rparr>, rlen rm)"
proof -
  from matchEvery_shape [OF assms] have
    p: "parseInt10 (countStr rm) = Some (int (decVal (countStr rm)))"
    and a: "toLowerCase (unitStr rm) \<in> set unitAlternatives"
    by (simp_all add: parseInt10_digits)
  from normalizeUnit_alternatives [OF a] obtain u where
    u: "normalizeUnit (toLowerCase (unitStr rm)) = Some u" by blast
  have "parseRecur t = Some (\<lparr>every = max 1 (int (decVal (countStr rm))), unit = u\<rparr>, rlen rm)"
    unfolding parseRecur_def assms by (simp add: p u Let_def)
  then show ?thesis using normalizeUnit_range [OF u] by blast
qed

lemma parseRecur_range:
  assumes "parseRecur t = Some (r, n)"
  shows "1 \<le> every r \<and> unit r \<in> {js ''minutes'', js ''hours'', js ''days'', js ''weeks''}"
  using assms unfolding parseRecur_def
  by (auto simp: Let_def split: option.splits if_splits dest: normalizeUnit_range)

lemma parseOne_recur:
  assumes "parseOne line start m nextStart = Some oc"
  shows "occRecur oc =
           map_option fst (parseRecur (sliceStr line
              (start + length (sliceStr line start (start + mlen m))) nextStart))"
    and "occContext oc =
           contextOf line start
             (case parseRecur (sliceStr line
                (start + length (sliceStr line start (start + mlen m))) nextStart) of
                None \<Rightarrow> start + length (sliceStr line start (start + mlen m))
              | Some (r, n) \<Rightarrow> start + length (sliceStr line start (start + mlen m)) + n)"
    and "occOffset oc = start" and "occRaw oc = sliceStr line start (start + mlen m)"
  using assms unfolding parseOne_def
  by (auto simp: Let_def split: option.splits if_splits prod.splits)

lemma parseOne_recur_range:
  assumes "parseOne line start m nextStart = Some oc" "occRecur oc = Some r"
  shows "1 \<le> every r \<and> unit r \<in> {js ''minutes'', js ''hours'', js ''days'', js ''weeks''}"
proof -
  from assms parseOne_recur(1) [OF assms(1)] obtain n where
    "parseRecur (sliceStr line (start + length (sliceStr line start (start + mlen m))) nextStart) =
       Some (r, n)"
    by (cases "parseRecur (sliceStr line (start + length (sliceStr line start (start + mlen m))) nextStart)")
      auto
  then show ?thesis by (rule parseRecur_range)
qed

lemma parseMatches_recur_range:
  "oc \<in> set (parseMatches line ms) \<Longrightarrow> occRecur oc = Some r \<Longrightarrow>
   1 \<le> every r \<and> unit r \<in> {js ''minutes'', js ''hours'', js ''days'', js ''weeks''}"
proof (induction line ms rule: parseMatches.induct)
  case (1 line)
  then show ?case by simp
next
  case (2 line start m rest)
  then show ?case
    by (auto simp: Let_def split: option.splits
        dest: parseOne_recur_range parseOne_recur_range [OF sym])
qed

subsection \<open>Evaluation of the parser on a line with a suffix of count zero\<close>


lemma every0_tail: "matchTail (js '' every 0 h b'') = Some (1, None)"
  by (simp add: matchTail_def tailAt_def isAmPm_def wordBoundary_def isSpace_def isWordChar_def isDigit_def js_def)

lemma every0_minutes: "matchMinutes (js '':00 every 0 h b'') = Some (4, Some (js ''00''), None)"
  by (simp add: matchMinutes_def every0_tail [unfolded js_def, simplified] isDigit_def js_def)

lemma every0_hour: "matchHour (js ''14:00 every 0 h b'') = Some (6, js ''14'', Some (js ''00''), None)"
  by (simp add: matchHour_def every0_minutes [unfolded js_def, simplified] isDigit_def js_def)

lemma every0_stamp: "matchAfterClock (js '' 2025-08-16 14:00 every 0 h b'') =
    Some \<lparr>mlen = 19, dateStr = js ''2025-08-16'', hourStr = js ''14'', minStr = Some (js ''00''),
         apStr = None\<rparr>"
  by (simp add: matchAfterClock_def every0_hour [unfolded js_def, simplified] isDateText_def isSpace_def isDigit_def js_def)

lemma every0_matches: "matchAllFrom 0 (js ''a '' @ 9200 # js '' 2025-08-16 14:00 every 0 h b'') =
    [(2, \<lparr>mlen = 19, dateStr = js ''2025-08-16'', hourStr = js ''14'', minStr = Some (js ''00''),
         apStr = None\<rparr>)]"
  by (simp add: every0_stamp [unfolded js_def, simplified] js_def)

lemma every0_matchEvery: "matchEvery (js ''every 0 h b'') = Some \<lparr>rlen = 9, countStr = js ''0'', unitStr = js ''h''\<rparr>"
  by (simp add: matchEvery_def unitAlternatives_def wordBoundary_def isSpace_def isDigit_def
      isWordChar_def lowerUnit_def js_def)

lemma every0_parseRecur: "parseRecur (js ''every 0 h b'') = Some (\<lparr>every = 1, unit = js ''hours''\<rparr>, 9)"
  by (simp add: parseRecur_def every0_matchEvery [unfolded js_def, simplified] parseInt10_def isSpace_def isDigit_def decVal_def
      toLowerCase_def lowerUnit_def normalizeUnit_def js_def)

lemma every0_parseOne: "parseOne (js ''a '' @ 9200 # js '' 2025-08-16 14:00 every 0 h b'') 2
     \<lparr>mlen = 19, dateStr = js ''2025-08-16'', hourStr = js ''14'', minStr = Some (js ''00''),
         apStr = None\<rparr> (length (js ''a '' @ 9200 # js '' 2025-08-16 14:00 every 0 h b'')) =
   Some \<lparr>occWhen = \<lparr>year = 2025, month = 8, day = 16, hour = 14, minute = 0\<rparr>,
     occContext = js ''a b'', occRaw = 9200 # js '' 2025-08-16 14:00 '', occOffset = 2,
     occRecur = Some \<lparr>every = 1, unit = js ''hours''\<rparr>\<rparr>"
  by (simp add: parseOne_def parseInt10_def isSpace_def isDigit_def decVal_def resolveHour_def
      momentOf_def isValid_def daysInMonth_def sliceStr_def
      every0_parseRecur [unfolded js_def, simplified] contextOf_def trim_def js_def)

lemma every0_parse: "parseClockEmojiAll (js ''a '' @ 9200 # js '' 2025-08-16 14:00 every 0 h b'') =
   [\<lparr>occWhen = \<lparr>year = 2025, month = 8, day = 16, hour = 14, minute = 0\<rparr>,
     occContext = js ''a b'', occRaw = 9200 # js '' 2025-08-16 14:00 '', occOffset = 2,
     occRecur = Some \<lparr>every = 1, unit = js ''hours''\<rparr>\<rparr>]"
  unfolding parseClockEmojiAll_def every0_matches
  by (simp only: parseMatches.simps Let_def list.case every0_parseOne option.case append.simps)

text \<open>
  Claim C10. Every occurrence returned by the parser that carries a recurrence has
  \<open>every \<ge> 1\<close> and one of the units minutes, hours, days, weeks. A suffix that matches
  the recurrence pattern with the count 0 is not rejected: the count becomes 1, the
  recurrence is attached and the length of the suffix is returned, and \<open>parseOne\<close> removes
  a span extended by that length from the context. On the line
  \<open>a [clock] 2025-08-16 14:00 every 0 h b\<close> (where [clock] is the glyph U+23F0) the parser returns one
  occurrence, with the recurrence every 1 hours and the context \<open>a b\<close>.
\<close>

theorem recurrence_every_positive:
  "(\<forall>oc \<in> set (parseClockEmojiAll line). \<forall>r. occRecur oc = Some r \<longrightarrow>
       1 \<le> every r \<and> unit r \<in> {js ''minutes'', js ''hours'', js ''days'', js ''weeks''}) \<and>
   (matchEvery t = Some rm \<and> decVal (countStr rm) = 0 \<longrightarrow>
       (\<exists>u \<in> {js ''minutes'', js ''hours'', js ''days'', js ''weeks''}.
          parseRecur t = Some (\<lparr>every = 1, unit = u\<rparr>, rlen rm))) \<and>
   (parseOne line start m nextStart = Some oc \<longrightarrow>
       occRecur oc =
         map_option fst (parseRecur (sliceStr line
            (start + length (sliceStr line start (start + mlen m))) nextStart)) \<and>
       occContext oc =
         contextOf line start
           (case parseRecur (sliceStr line
              (start + length (sliceStr line start (start + mlen m))) nextStart) of
              None \<Rightarrow> start + length (sliceStr line start (start + mlen m))
            | Some (r, n) \<Rightarrow> start + length (sliceStr line start (start + mlen m)) + n)) \<and>
   parseClockEmojiAll (js ''a '' @ 9200 # js '' 2025-08-16 14:00 every 0 h b'') =
     [\<lparr>occWhen = \<lparr>year = 2025, month = 8, day = 16, hour = 14, minute = 0\<rparr>,
       occContext = js ''a b'', occRaw = 9200 # js '' 2025-08-16 14:00 '', occOffset = 2,
       occRecur = Some \<lparr>every = 1, unit = js ''hours''\<rparr>\<rparr>]"
proof (intro conjI ballI allI impI)
  fix oc r assume "oc \<in> set (parseClockEmojiAll line)" "occRecur oc = Some r"
  then show "1 \<le> every r"
    and "unit r \<in> {js ''minutes'', js ''hours'', js ''days'', js ''weeks''}"
    unfolding parseClockEmojiAll_def using parseMatches_recur_range by blast+
next
  assume a: "matchEvery t = Some rm \<and> decVal (countStr rm) = 0"
  then have "matchEvery t = Some rm" by simp
  from parseRecur_total [OF this] a
  show "\<exists>u \<in> {js ''minutes'', js ''hours'', js ''days'', js ''weeks''}.
          parseRecur t = Some (\<lparr>every = 1, unit = u\<rparr>, rlen rm)"
    by simp
next
  assume p: "parseOne line start m nextStart = Some oc"
  show "occRecur oc =
         map_option fst (parseRecur (sliceStr line
            (start + length (sliceStr line start (start + mlen m))) nextStart))"
    using parseOne_recur(1) [OF p] .
  show "occContext oc =
         contextOf line start
           (case parseRecur (sliceStr line
              (start + length (sliceStr line start (start + mlen m))) nextStart) of
              None \<Rightarrow> start + length (sliceStr line start (start + mlen m))
            | Some (r, n) \<Rightarrow> start + length (sliceStr line start (start + mlen m)) + n)"
    using parseOne_recur(2) [OF p] .
next
  show "parseClockEmojiAll (js ''a '' @ 9200 # js '' 2025-08-16 14:00 every 0 h b'') =
     [\<lparr>occWhen = \<lparr>year = 2025, month = 8, day = 16, hour = 14, minute = 0\<rparr>,
       occContext = js ''a b'', occRaw = 9200 # js '' 2025-08-16 14:00 '', occOffset = 2,
       occRecur = Some \<lparr>every = 1, unit = js ''hours''\<rparr>\<rparr>]"
    by (rule every0_parse)
qed

theorem recurrence_every_positive_witness:
  "matchEvery (js ''every 0 h b'') = Some \<lparr>rlen = 9, countStr = js ''0'', unitStr = js ''h''\<rparr> \<and>
   decVal (js ''0'') = 0 \<and>
   (\<exists>u \<in> {js ''minutes'', js ''hours'', js ''days'', js ''weeks''}.
      parseRecur (js ''every 0 h b'') = Some (\<lparr>every = 1, unit = u\<rparr>, 9)) \<and>
   1 \<le> every \<lparr>every = 1, unit = js ''hours''\<rparr>"
proof -
  have d: "decVal (js ''0'') = 0" by (simp add: decVal_def js_def)
  note t = recurrence_every_positive
    [where t = "js ''every 0 h b''"
       and rm = "\<lparr>rlen = 9, countStr = js ''0'', unitStr = js ''h''\<rparr>"
       and line = "js ''a '' @ 9200 # js '' 2025-08-16 14:00 every 0 h b''"]
  from t every0_matchEvery d have a: "\<exists>u \<in> {js ''minutes'', js ''hours'', js ''days'', js ''weeks''}.
      parseRecur (js ''every 0 h b'') = Some (\<lparr>every = 1, unit = u\<rparr>, 9)"
    by simp
  from t have "\<forall>oc \<in> set (parseClockEmojiAll (js ''a '' @ 9200 # js '' 2025-08-16 14:00 every 0 h b'')).
      \<forall>r. occRecur oc = Some r \<longrightarrow> 1 \<le> every r" by blast
  then have b: "1 \<le> every \<lparr>every = 1, unit = js ''hours''\<rparr>"
    unfolding every0_parse by simp
  from every0_matchEvery d a b show ?thesis by blast
qed

section \<open>Properties of the rescan\<close>
















subsection \<open>Evaluation of a rescan with an edited-line hint\<close>





















subsection \<open>The context of an occurrence\<close>





















































end
